theory Spec2Isabelle
  imports Main
begin

section \<open>micro-flag.h: the data model\<close>

text \<open>
  The two enumerations of the header, each with the enumerators it declares, in the order
  of the header. The last enumerator of each is spelled with a leading underscore in C
  (\<^verbatim>\<open>_MICRO_FLAG_ERROR_MAX\<close>, \<^verbatim>\<open>_MICRO_FLAG_MAX\<close>); the underscore is dropped here.
  \<open>MICRO_FLAG_MAX\<close> is a value of \<open>MicroFlagType\<close> that is none of the five kinds, so
  it is the one that reaches the \<^verbatim>\<open>default:\<close> branch of the parser's switch.
\<close>

datatype MicroFlagError =
    MICRO_FLAG_OK
  | MICRO_FLAG_ERROR_UNKNOWN_TYPE
  | MICRO_FLAG_ERROR_MISSING_CHAR
  | MICRO_FLAG_ERROR_MISSING_STR
  | MICRO_FLAG_ERROR_MISSING_INT
  | MICRO_FLAG_ERROR_MISSING_DOUBLE
  | MICRO_FLAG_ERROR_CHAR_WRONG_ARG
  | MICRO_FLAG_ERROR_UNKNOWN_FLAG
  | MICRO_FLAG_ERROR_NOT_AN_INT
  | MICRO_FLAG_ERROR_NOT_A_DOUBLE
  | MICRO_FLAG_ERROR_MAX

datatype MicroFlagType =
    MICRO_FLAG_BOOL
  | MICRO_FLAG_CHAR
  | MICRO_FLAG_STR
  | MICRO_FLAG_INT
  | MICRO_FLAG_DOUBLE
  | MICRO_FLAG_MAX

text \<open>The integer value of an enumerator, used to index \<^verbatim>\<open>micro_flag_type_str\<close>.\<close>

fun type_index :: "MicroFlagType \<Rightarrow> nat" where
  "type_index MICRO_FLAG_BOOL = 0"
| "type_index MICRO_FLAG_CHAR = 1"
| "type_index MICRO_FLAG_STR = 2"
| "type_index MICRO_FLAG_INT = 3"
| "type_index MICRO_FLAG_DOUBLE = 4"
| "type_index MICRO_FLAG_MAX = 5"

text \<open>
  The struct \<^verbatim>\<open>MicroFlag\<close>. The fields \<^verbatim>\<open>type\<close> and \<^verbatim>\<open>value\<close> are called
  \<open>flag_type\<close> and \<open>flag_value\<close>. The opaque pointer \<^verbatim>\<open>value\<close> is an address of the
  store below. The two names may be \<^verbatim>\<open>NULL\<close> (the code tests them), hence the option.
\<close>

record MicroFlag =
  flag_type :: MicroFlagType
  flag_value :: nat
  short_name :: "string option"
  long_name :: "string option"
  description :: string

text \<open>
  Caller-owned memory: what an address holds. The parser writes through the untyped
  pointer after a cast, so a write replaces the cell whatever it held. The type \<open>'d\<close>
  stands for C's \<^verbatim>\<open>double\<close>. A \<open>CStr\<close> cell holds the text the stored \<^verbatim>\<open>char*\<close>
  points to.
\<close>

datatype 'd cell =
    CBool bool
  | CChar char
  | CStr string
  | CInt int
  | CDouble 'd

type_synonym 'd store = "nat \<Rightarrow> 'd cell"

section \<open>The C library functions the parser calls\<close>

text \<open>
  \<^verbatim>\<open>printf\<close> appends to the standard output, which is a string here. A line feed:
\<close>

definition NL :: string where
  "NL = [CHR 0x0A]"

text \<open>
  \<^verbatim>\<open>printf("%s", p)\<close> with a \<^verbatim>\<open>NULL\<close> pointer: the GNU C library prints \<^verbatim>\<open>(null)\<close>.
\<close>

fun fmt_s :: "string option \<Rightarrow> string" where
  "fmt_s None = ''(null)''"
| "fmt_s (Some s) = s"

text \<open>
  \<^verbatim>\<open>strtol(nptr, &endptr, 10)\<close> after ISO C: white space is skipped, then an optional
  sign, then the longest run of decimal digits is converted. The result is the value
  (\<^verbatim>\<open>LONG_MAX\<close> or \<^verbatim>\<open>LONG_MIN\<close> when it is out of the range of \<^verbatim>\<open>long\<close>), the
  number of characters up to \<^verbatim>\<open>endptr\<close> (zero when there is no digit:
  \<^verbatim>\<open>endptr == nptr\<close>), and whether \<^verbatim>\<open>errno\<close> is \<^verbatim>\<open>ERANGE\<close>. \<^verbatim>\<open>long\<close> has 64
  bits and \<^verbatim>\<open>int\<close> 32.
\<close>

definition LONG_MAX :: int where "LONG_MAX = 9223372036854775807"
definition LONG_MIN :: int where "LONG_MIN = - 9223372036854775808"
definition INT_MAX :: int where "INT_MAX = 2147483647"
definition INT_MIN :: int where "INT_MIN = - 2147483648"

definition isspace :: "char \<Rightarrow> bool" where
  "isspace c \<longleftrightarrow> c \<in> set [CHR '' '', CHR 0x09, CHR 0x0A, CHR 0x0B, CHR 0x0C, CHR 0x0D]"

definition isdigit :: "char \<Rightarrow> bool" where
  "isdigit c \<longleftrightarrow> 48 \<le> (of_char c :: nat) \<and> (of_char c :: nat) \<le> 57"

definition digit_val :: "char \<Rightarrow> int" where
  "digit_val c = int (of_char c) - 48"

definition digits_val :: "string \<Rightarrow> int" where
  "digits_val ds = foldl (\<lambda>a c. 10 * a + digit_val c) 0 ds"

text \<open>
  The text \<^verbatim>\<open>strtol\<close> converts: the number it stands for and its length, white space
  and sign included; \<open>None\<close> when no digit follows the white space and the sign.
\<close>

definition scan_int :: "string \<Rightarrow> (int \<times> nat) option" where
  "scan_int nptr =
     (let ws = takeWhile isspace nptr;
          r1 = dropWhile isspace nptr;
          neg = (r1 \<noteq> [] \<and> hd r1 = CHR ''-'');
          sgn = (if r1 \<noteq> [] \<and> (hd r1 = CHR ''-'' \<or> hd r1 = CHR ''+'') then 1 else 0);
          ds = takeWhile isdigit (drop sgn r1)
      in if ds = [] then None
         else Some (if neg then - digits_val ds else digits_val ds,
                    length ws + sgn + length ds))"

definition strtol :: "string \<Rightarrow> int \<times> nat \<times> bool" where
  "strtol nptr =
     (case scan_int nptr of
        None \<Rightarrow> (0, 0, False)
      | Some (v, n) \<Rightarrow>
          if v > LONG_MAX then (LONG_MAX, n, True)
          else if v < LONG_MIN then (LONG_MIN, n, True)
          else (v, n, False))"

section \<open>micro\_flag\_parse\<close>

text \<open>
  The variables of \<^verbatim>\<open>micro_flag_parse\<close> that change: the index \<^verbatim>\<open>i\<close> into
  \<^verbatim>\<open>argv\<close>, the flag \<^verbatim>\<open>found\<close>, the caller's memory and the standard output.
\<close>

record 'd pstate =
  idx :: nat
  found :: bool
  mem :: "'d store"
  out :: string

text \<open>A \<^verbatim>\<open>return\<close> inside the loops, or falling through to the next iteration.\<close>

datatype 'd outcome = Returned MicroFlagError "'d pstate" | Next "'d pstate"

text \<open>
  The condition of line 214: the name is not \<^verbatim>\<open>NULL\<close> and \<^verbatim>\<open>strcmp\<close> finds it equal
  to the token.
\<close>

definition matches :: "MicroFlag \<Rightarrow> string \<Rightarrow> bool" where
  "matches f tok \<longleftrightarrow>
     (short_name f \<noteq> None \<and> the (short_name f) = tok)
     \<or> (long_name f \<noteq> None \<and> the (long_name f) = tok)"

text \<open>The usage line every value kind prints before it returns an error.\<close>

definition usage :: "MicroFlag \<Rightarrow> string \<Rightarrow> string" where
  "usage f shape =
     ''Usage: '' @ fmt_s (short_name f) @ '','' @ fmt_s (long_name f) @ '' '' @ shape @ NL"

definition printf :: "string \<Rightarrow> 'd pstate \<Rightarrow> 'd pstate" where
  "printf buf s = s\<lparr>out := out s @ buf\<rparr>"

definition store_at :: "nat \<Rightarrow> 'd cell \<Rightarrow> 'd pstate \<Rightarrow> 'd pstate" where
  "store_at a c s = s\<lparr>mem := (mem s)(a := c)\<rparr>"

text \<open>
  The \<^verbatim>\<open>switch\<close> on the type of a flag that matched (lines 218 to 297), with
  \<^verbatim>\<open>argc = length argv\<close>. \<^verbatim>\<open>strtod\<close> is a parameter: it gives the value, the number
  of characters up to \<^verbatim>\<open>endptr\<close> and whether \<^verbatim>\<open>errno\<close> is \<^verbatim>\<open>ERANGE\<close>.
\<close>

definition switch_type ::
  "(string \<Rightarrow> 'd \<times> nat \<times> bool) \<Rightarrow> MicroFlag \<Rightarrow> string list \<Rightarrow> 'd pstate \<Rightarrow> 'd outcome"
where
  "switch_type strtod f argv s =
     (case flag_type f of
        MICRO_FLAG_BOOL \<Rightarrow> Next (store_at (flag_value f) (CBool True) s)
      | MICRO_FLAG_CHAR \<Rightarrow>
          if idx s + 1 \<ge> length argv
          then Returned MICRO_FLAG_ERROR_MISSING_CHAR (printf (usage f ''<char>'') s)
          else if length (argv ! (idx s + 1)) \<noteq> 1
          then Returned MICRO_FLAG_ERROR_CHAR_WRONG_ARG (printf (usage f ''<char>'') s)
          else Next ((store_at (flag_value f) (CChar (hd (argv ! (idx s + 1)))) s)
                       \<lparr>idx := idx s + 1\<rparr>)
      | MICRO_FLAG_STR \<Rightarrow>
          if idx s + 1 \<ge> length argv
          then Returned MICRO_FLAG_ERROR_MISSING_STR (printf (usage f ''<string>'') s)
          else Next ((store_at (flag_value f) (CStr (argv ! (idx s + 1))) s)
                       \<lparr>idx := idx s + 1\<rparr>)
      | MICRO_FLAG_INT \<Rightarrow>
          if idx s + 1 \<ge> length argv
          then Returned MICRO_FLAG_ERROR_MISSING_INT (printf (usage f ''<integer>'') s)
          else (case strtol (argv ! (idx s + 1)) of (val_int, endptr, erange) \<Rightarrow>
            if endptr = 0 \<or> erange \<or> val_int > INT_MAX \<or> val_int < INT_MIN
            then Returned MICRO_FLAG_ERROR_NOT_AN_INT (printf (usage f ''<integer>'') s)
            else Next ((store_at (flag_value f) (CInt val_int) s)\<lparr>idx := idx s + 1\<rparr>))
      | MICRO_FLAG_DOUBLE \<Rightarrow>
          if idx s + 1 \<ge> length argv
          then Returned MICRO_FLAG_ERROR_MISSING_DOUBLE (printf (usage f ''<double>'') s)
          else (case strtod (argv ! (idx s + 1)) of (val_double, endptr, erange) \<Rightarrow>
            if endptr = 0 \<or> erange
            then Returned MICRO_FLAG_ERROR_NOT_A_DOUBLE (printf (usage f ''<double>'') s)
            else Next ((store_at (flag_value f) (CDouble val_double) s)
                         \<lparr>idx := idx s + 1\<rparr>))
      | MICRO_FLAG_MAX \<Rightarrow> Returned MICRO_FLAG_ERROR_UNKNOWN_TYPE s)"

text \<open>
  The inner loop (lines 212 to 299) over the flags that are left. Each flag is compared
  with \<^verbatim>\<open>argv[i]\<close> for the value \<^verbatim>\<open>i\<close> has when the flag is reached: the loop goes
  on after a match, and a value kind has incremented \<^verbatim>\<open>i\<close> by then. The index stays
  below \<^verbatim>\<open>argc\<close>: a value kind increments it only when \<^verbatim>\<open>i + 1 < argc\<close>.
\<close>

fun scan_flags ::
  "(string \<Rightarrow> 'd \<times> nat \<times> bool) \<Rightarrow> MicroFlag list \<Rightarrow> string list \<Rightarrow> 'd pstate \<Rightarrow> 'd outcome"
where
  "scan_flags strtod [] argv s = Next s"
| "scan_flags strtod (f # fs) argv s =
     (if matches f (argv ! idx s)
      then (case switch_type strtod f argv (s\<lparr>found := True\<rparr>) of
              Returned e s' \<Rightarrow> Returned e s'
            | Next s' \<Rightarrow> scan_flags strtod fs argv s')
      else scan_flags strtod fs argv s)"

text \<open>The line of line 302, for the token that no flag matched.\<close>

definition unknown_flag_line :: "string \<Rightarrow> string" where
  "unknown_flag_line tok =
     ''Error parsing flags: unknown flag '' @ [CHR 0x22] @ tok @ [CHR 0x22] @ NL"

text \<open>
  The outer loop (lines 208 to 305), from the state it is in. The result is the value
  returned, the memory and the output.
\<close>

function parse_loop ::
  "(string \<Rightarrow> 'd \<times> nat \<times> bool) \<Rightarrow> MicroFlag list \<Rightarrow> string list \<Rightarrow> 'd pstate
     \<Rightarrow> MicroFlagError \<times> 'd store \<times> string"
where
  "parse_loop strtod flags argv s =
     (if idx s < length argv
      then (case scan_flags strtod flags argv (s\<lparr>found := False\<rparr>) of
              Returned e s' \<Rightarrow> (e, mem s', out s')
            | Next s' \<Rightarrow>
                if \<not> found s'
                then (MICRO_FLAG_ERROR_UNKNOWN_FLAG, mem s',
                      out s' @ unknown_flag_line (argv ! idx s'))
                else parse_loop strtod flags argv (s'\<lparr>idx := idx s' + 1\<rparr>))
      else (MICRO_FLAG_OK, mem s, out s))"
  by pat_completeness auto
termination
proof (relation "measure (\<lambda>(strtod, flags, argv, s). length argv - idx s)", goal_cases)
  case 1
  show ?case by simp
next
  case (2 strtod flags argv s s')
  have step: "idx t \<le> idx t'" if "switch_type strtod f argv t = Next t'" for f t t'
    using that
    by (auto simp: switch_type_def store_at_def
          split: MicroFlagType.splits if_splits prod.splits)
  have mono: "idx t \<le> idx t'" if "scan_flags strtod fs argv t = Next t'" for fs t t'
    using that
  proof (induction fs arbitrary: t)
    case Nil
    then show ?case by simp
  next
    case (Cons f fs)
    show ?case
    proof (cases "matches f (argv ! idx t)")
      case False
      with Cons show ?thesis by simp
    next
      case True
      with Cons.prems obtain t1 where
        t1: "switch_type strtod f argv (t\<lparr>found := True\<rparr>) = Next t1"
        and rest: "scan_flags strtod fs argv t1 = Next t'"
        by (auto split: outcome.splits)
      from step [OF t1] Cons.IH [OF rest] show ?thesis by simp
    qed
  qed
  from mono [OF 2(2)] 2(1) show ?case by simp
qed

text \<open>
  \<^verbatim>\<open>micro_flag_parse(flags, num_flags, argc, argv)\<close>, where \<^verbatim>\<open>num_flags\<close> is the
  length of \<open>flags\<close> and \<^verbatim>\<open>argc\<close> the length of \<open>argv\<close>, from the caller's memory
  \<open>m\<close> and an empty output.
\<close>

definition micro_flag_parse ::
  "(string \<Rightarrow> 'd \<times> nat \<times> bool) \<Rightarrow> MicroFlag list \<Rightarrow> string list \<Rightarrow> 'd store
     \<Rightarrow> MicroFlagError \<times> 'd store \<times> string"
where
  "micro_flag_parse strtod flags argv m =
     parse_loop strtod flags argv \<lparr>idx = 1, found = False, mem = m, out = []\<rparr>"

section \<open>micro\_flag\_print\_help\<close>

text \<open>The table of line 201; it has five entries.\<close>

definition micro_flag_type_str :: "string list" where
  "micro_flag_type_str = ['''', ''<char>'', ''<str>'', ''<int>'', ''<double>'']"

text \<open>
  One iteration of the loop of \<^verbatim>\<open>micro_flag_print_help\<close> (lines 322 to 329): what the
  \<^verbatim>\<open>printf\<close> writes. Reading the table beyond its end is undefined in C: \<open>None\<close>.
\<close>

definition print_flag :: "MicroFlag \<Rightarrow> string option" where
  "print_flag f =
     (let has_short = (short_name f \<noteq> None);
          has_long = (long_name f \<noteq> None)
      in if type_index (flag_type f) < length micro_flag_type_str
         then Some (''    '' @ (if has_short then the (short_name f) else '''')
                @ (if has_long \<and> has_short then '','' else '''')
                @ (if has_long then the (long_name f) else '''')
                @ '' '' @ micro_flag_type_str ! type_index (flag_type f) @ NL
                @ ''        '' @ description f @ NL)
         else None)"

fun print_flags :: "MicroFlag list \<Rightarrow> string \<Rightarrow> string option" where
  "print_flags [] stdout = Some stdout"
| "print_flags (f # fs) stdout =
     (case print_flag f of
        None \<Rightarrow> None
      | Some buf \<Rightarrow> print_flags fs (stdout @ buf))"

text \<open>
  \<^verbatim>\<open>micro_flag_print_help\<close>, with \<^verbatim>\<open>num_flags\<close> the length of \<open>flags\<close>: the value
  returned and the text written to the standard output.
\<close>

definition micro_flag_print_help ::
  "string \<Rightarrow> string \<Rightarrow> MicroFlag list \<Rightarrow> (MicroFlagError \<times> string) option"
where
  "micro_flag_print_help prog_name descr flags =
     (case print_flags flags (prog_name @ NL @ descr @ NL @ NL @ ''Options:'' @ NL) of
        None \<Rightarrow> None
      | Some buf \<Rightarrow> Some (MICRO_FLAG_OK, buf))"

section \<open>The flag table of example.c\<close>

text \<open>
  The array \<^verbatim>\<open>flags\<close> of \<^verbatim>\<open>main\<close> in example.c. The members of \<^verbatim>\<open>args\<close> are the
  addresses 0 to 4, in the order of the struct \<^verbatim>\<open>Args\<close>.
\<close>

definition example_flags :: "MicroFlag list" where
  "example_flags =
     [\<lparr>flag_type = MICRO_FLAG_BOOL, flag_value = 0, short_name = Some ''-h'',
        long_name = Some ''--help'', description = ''show help message''\<rparr>,
      \<lparr>flag_type = MICRO_FLAG_STR, flag_value = 1, short_name = Some ''-o'',
        long_name = Some ''--output'', description = ''set output file''\<rparr>,
      \<lparr>flag_type = MICRO_FLAG_CHAR, flag_value = 2, short_name = Some ''-c'',
        long_name = Some ''--char'', description = ''give me a char!''\<rparr>,
      \<lparr>flag_type = MICRO_FLAG_INT, flag_value = 3, short_name = Some ''-n'',
        long_name = Some ''--number'', description = ''print this number''\<rparr>,
      \<lparr>flag_type = MICRO_FLAG_DOUBLE, flag_value = 4, short_name = Some ''-d'',
        long_name = Some ''--double'', description = ''print a double''\<rparr>]"

text \<open>
  The defaults \<^verbatim>\<open>main\<close> gives the members of \<^verbatim>\<open>args\<close>; \<open>d0\<close> is the default of
  \<^verbatim>\<open>a_double\<close>.
\<close>

definition example_args :: "'d \<Rightarrow> 'd store" where
  "example_args d0 =
     (\<lambda>a. if a = 1 then CStr ''out'' else if a = 2 then CChar (CHR ''A'')
          else if a = 3 then CInt 0 else if a = 4 then CDouble d0 else CBool False)"

text \<open>
  A \<^verbatim>\<open>strtod\<close> that finds no number in any text, for runs in which no flag of kind
  \<open>MICRO_FLAG_DOUBLE\<close> is matched.
\<close>

definition strtod_none :: "string \<Rightarrow> unit \<times> nat \<times> bool" where
  "strtod_none nptr = ((), 0, False)"

section \<open>The help text as the specification describes it\<close>

text \<open>
  The specification's account of the help text, line by line: the placeholder of each of
  the five kinds, the two lines of an option block, and the whole listing. Every line ends
  with a line feed.
\<close>

fun spec_placeholder :: "MicroFlagType \<Rightarrow> string" where
  "spec_placeholder MICRO_FLAG_BOOL = ''''"
| "spec_placeholder MICRO_FLAG_CHAR = ''<char>''"
| "spec_placeholder MICRO_FLAG_STR = ''<str>''"
| "spec_placeholder MICRO_FLAG_INT = ''<int>''"
| "spec_placeholder MICRO_FLAG_DOUBLE = ''<double>''"

definition spec_names :: "MicroFlag \<Rightarrow> string" where
  "spec_names f =
     (case (short_name f, long_name f) of
        (Some sn, Some ln) \<Rightarrow> sn @ '','' @ ln
      | (Some sn, None) \<Rightarrow> sn
      | (None, Some ln) \<Rightarrow> ln
      | (None, None) \<Rightarrow> '''')"

definition spec_block :: "MicroFlag \<Rightarrow> string list" where
  "spec_block f =
     [''    '' @ spec_names f @ '' '' @ spec_placeholder (flag_type f),
      ''        '' @ description f]"

definition spec_help_lines :: "string \<Rightarrow> string \<Rightarrow> MicroFlag list \<Rightarrow> string list" where
  "spec_help_lines prog_name descr flags =
     [prog_name, descr, '''', ''Options:''] @ concat (map spec_block flags)"

definition unlines :: "string list \<Rightarrow> string" where
  "unlines ls = concat (map (\<lambda>l. l @ NL) ls)"

section \<open>Runs and tables for the properties\<close>

text \<open>
  The rest of a run of \<^verbatim>\<open>micro_flag_parse\<close> from inside the inner loop: the flags
  \<open>fs\<close> are still to be compared in this iteration, then the outer loop goes on.
\<close>

definition resume ::
  "(string \<Rightarrow> 'd \<times> nat \<times> bool) \<Rightarrow> MicroFlag list \<Rightarrow> MicroFlag list \<Rightarrow> string list
     \<Rightarrow> 'd pstate \<Rightarrow> MicroFlagError \<times> 'd store \<times> string"
where
  "resume strtod flags fs argv s =
     (case scan_flags strtod fs argv s of
        Returned e s' \<Rightarrow> (e, mem s', out s')
      | Next s' \<Rightarrow>
          if \<not> found s'
          then (MICRO_FLAG_ERROR_UNKNOWN_FLAG, mem s',
                out s' @ unknown_flag_line (argv ! idx s'))
          else parse_loop strtod flags argv (s'\<lparr>idx := idx s' + 1\<rparr>))"

text \<open>
  A flag that has a short name only, as the initializer
  \<^verbatim>\<open>{ type, &var, "-x", NULL, "" }\<close> declares it.
\<close>

definition short_flag :: "MicroFlagType \<Rightarrow> nat \<Rightarrow> string \<Rightarrow> MicroFlag" where
  "short_flag ty a sn =
     \<lparr>flag_type = ty, flag_value = a, short_name = Some sn, long_name = None,
      description = ''''\<rparr>"


text \<open>The state a pass through the switch or the inner loop ends in.\<close>

fun outcome_state :: "'d outcome \<Rightarrow> 'd pstate" where
  "outcome_state (Returned e s) = s"
| "outcome_state (Next s) = s"

text \<open>
  The memory after \<open>true\<close> has been written to the destination of every flag of the
  table that matches a token.
\<close>

definition set_matching :: "MicroFlag list \<Rightarrow> string \<Rightarrow> 'd store \<Rightarrow> 'd store" where
  "set_matching flags tok m =
     (\<lambda>a. if list_ex (\<lambda>h. matches h tok \<and> flag_value h = a) flags then CBool True else m a)"

section \<open>Parsing as the specification describes it\<close>



section \<open>Properties of micro\_flag\_print\_help\<close>

lemma print_flag_five_kinds:
  assumes "flag_type f \<noteq> MICRO_FLAG_MAX"
  shows "print_flag f = Some (unlines (spec_block f))"
  using assms
  by (cases "flag_type f"; cases "short_name f"; cases "long_name f")
     (simp_all add: print_flag_def micro_flag_type_str_def unlines_def spec_block_def
        spec_names_def)

lemma print_flags_five_kinds:
  assumes "\<forall>f \<in> set flags. flag_type f \<noteq> MICRO_FLAG_MAX"
  shows "print_flags flags buf = Some (buf @ unlines (concat (map spec_block flags)))"
  using assms
proof (induction flags arbitrary: buf)
  case Nil
  show ?case by (simp add: unlines_def)
next
  case (Cons f flags)
  from Cons.prems have "print_flag f = Some (unlines (spec_block f))"
    by (simp add: print_flag_five_kinds)
  moreover from Cons.prems
  have "print_flags flags (buf @ unlines (spec_block f)) =
          Some ((buf @ unlines (spec_block f)) @ unlines (concat (map spec_block flags)))"
    by (intro Cons.IH) simp
  ultimately show ?case by (simp add: unlines_def)
qed

text \<open>
  C9. For a table of N flags of the five kinds, the help text is the program name line,
  the description line, an empty line, the line \<^verbatim>\<open>Options:\<close>, and then the two-line
  blocks of the flags in table order, 2 * N lines in all: the first line of a block has
  the short name, a comma exactly when both names are present, the long name and the
  placeholder of the kind; the second line is the indented description. The call
  returns \<open>MICRO_FLAG_OK\<close>.
\<close>

theorem print_help_layout:
  assumes "\<forall>f \<in> set flags. flag_type f \<noteq> MICRO_FLAG_MAX"
  shows "micro_flag_print_help prog_name descr flags =
           Some (MICRO_FLAG_OK, unlines (spec_help_lines prog_name descr flags))
         \<and> length (concat (map spec_block flags)) = 2 * length flags"
proof
  show "micro_flag_print_help prog_name descr flags =
          Some (MICRO_FLAG_OK, unlines (spec_help_lines prog_name descr flags))"
    by (simp add: micro_flag_print_help_def print_flags_five_kinds [OF assms]
          spec_help_lines_def unlines_def)
  show "length (concat (map spec_block flags)) = 2 * length flags"
    by (induction flags) (simp_all add: spec_block_def)
qed

theorem print_help_layout_witness:
  "micro_flag_print_help ''example'' ''A sample application to showcase the library''
       example_flags =
     Some (MICRO_FLAG_OK,
       unlines [''example'', ''A sample application to showcase the library'', '''',
         ''Options:'',
         ''    -h,--help '', ''        show help message'',
         ''    -o,--output <str>'', ''        set output file'',
         ''    -c,--char <char>'', ''        give me a char!'',
         ''    -n,--number <int>'', ''        print this number'',
         ''    -d,--double <double>'', ''        print a double''])
   \<and> length (concat (map spec_block example_flags)) = 10"
  using print_help_layout [of example_flags "''example''"
      "''A sample application to showcase the library''"]
  by (simp add: example_flags_def spec_help_lines_def spec_block_def spec_names_def)

text \<open>
  C10. \<^verbatim>\<open>micro_flag_print_help\<close> never produces an error value: whatever it is given,
  a value it returns is \<open>MICRO_FLAG_OK\<close>, and for every program name, description and
  table of flags of the five kinds it does return (with the table's length as the count).
\<close>

theorem print_help_returns_ok:
  "(\<forall>e buf. micro_flag_print_help prog_name descr flags = Some (e, buf)
        \<longrightarrow> e = MICRO_FLAG_OK)
   \<and> ((\<forall>f \<in> set flags. flag_type f \<noteq> MICRO_FLAG_MAX)
        \<longrightarrow> (\<exists>buf. micro_flag_print_help prog_name descr flags = Some (MICRO_FLAG_OK, buf)))"
proof (intro conjI allI impI)
  fix e buf
  assume "micro_flag_print_help prog_name descr flags = Some (e, buf)"
  then show "e = MICRO_FLAG_OK"
    by (auto simp: micro_flag_print_help_def split: option.splits)
next
  assume "\<forall>f \<in> set flags. flag_type f \<noteq> MICRO_FLAG_MAX"
  then show "\<exists>buf. micro_flag_print_help prog_name descr flags = Some (MICRO_FLAG_OK, buf)"
    by (simp add: micro_flag_print_help_def print_flags_five_kinds)
qed

theorem print_help_returns_ok_witness:
  "\<exists>buf. micro_flag_print_help ''example'' ''A sample application'' example_flags =
     Some (MICRO_FLAG_OK, buf)"
  using print_help_returns_ok [of "''example''" "''A sample application''" example_flags]
  by (simp add: example_flags_def)

section \<open>Properties of micro\_flag\_parse\<close>

subsection \<open>The loops\<close>

declare parse_loop.simps [simp del]

lemma parse_loop_found:
  "parse_loop strtod flags argv (s\<lparr>found := b\<rparr>) = parse_loop strtod flags argv s"
  by (subst parse_loop.simps, subst (2) parse_loop.simps) simp

lemma parse_loop_cong_state:
  assumes "idx s = idx t" "mem s = mem t" "out s = out t"
  shows "parse_loop strtod flags argv s = parse_loop strtod flags argv t"
proof -
  from assms have "t = s\<lparr>found := found t\<rparr>"
    by (cases s, cases t) simp
  then show ?thesis by (metis parse_loop_found)
qed

lemma switch_type_not_ok:
  "switch_type strtod f argv s \<noteq> Returned MICRO_FLAG_OK s'"
  by (auto simp: switch_type_def split: MicroFlagType.splits if_splits prod.splits)

lemma scan_flags_not_ok:
  "scan_flags strtod fs argv s \<noteq> Returned MICRO_FLAG_OK s'"
  by (induction fs arbitrary: s) (auto simp: switch_type_not_ok split: outcome.splits)


lemma scan_flags_append:
  "scan_flags strtod (pre @ post) argv s =
     (case scan_flags strtod pre argv s of
        Returned e s' \<Rightarrow> Returned e s'
      | Next s' \<Rightarrow> scan_flags strtod post argv s')"
  by (induction pre arbitrary: s) (simp_all split: outcome.splits)

lemma switch_type_ext:
  assumes "switch_type strtod f argv s = Next s'"
  shows "switch_type strtod f (argv @ ext) s = Next s'"
  using assms
  by (auto simp: switch_type_def nth_append split: MicroFlagType.splits if_splits prod.splits)

lemma switch_type_bound:
  assumes "switch_type strtod f argv s = Next s'" "idx s < length argv"
  shows "idx s' < length argv"
  using assms
  by (auto simp: switch_type_def store_at_def split: MicroFlagType.splits if_splits prod.splits)

lemma scan_flags_ext:
  assumes "scan_flags strtod fs argv s = Next s'" "idx s < length argv"
  shows "scan_flags strtod fs (argv @ ext) s = Next s' \<and> idx s' < length argv"
  using assms
proof (induction fs arbitrary: s)
  case Nil
  then show ?case by simp
next
  case (Cons f fs)
  show ?case
  proof (cases "matches f (argv ! idx s)")
    case False
    with Cons show ?thesis by (simp add: nth_append)
  next
    case True
    with Cons.prems obtain s1 where
      s1: "switch_type strtod f argv (s\<lparr>found := True\<rparr>) = Next s1"
      and rest: "scan_flags strtod fs argv s1 = Next s'"
      by (auto split: outcome.splits)
    from s1 Cons.prems(2) have b: "idx s1 < length argv"
      by (auto dest: switch_type_bound)
    from Cons.IH [OF rest b] switch_type_ext [OF s1, of ext] True Cons.prems(2)
    show ?thesis by (simp add: nth_append)
  qed
qed

lemma parse_loop_ext:
  assumes "parse_loop strtod flags argv s = (MICRO_FLAG_OK, m1, o1)" "idx s \<le> length argv"
  shows "parse_loop strtod flags (argv @ ext) s =
           parse_loop strtod flags (argv @ ext)
             \<lparr>idx = length argv, found = b, mem = m1, out = o1\<rparr>"
  using assms
proof (induction strtod flags argv s rule: parse_loop.induct)
  case (1 strtod flags argv s)
  show ?case
  proof (cases "idx s < length argv")
    case False
    with "1.prems" have "idx s = length argv" "m1 = mem s" "o1 = out s"
      by (simp_all add: parse_loop.simps [of strtod flags argv s])
    then show ?thesis by (intro parse_loop_cong_state) simp_all
  next
    case True
    with "1.prems"(1) obtain s' where
      sc: "scan_flags strtod flags argv (s\<lparr>found := False\<rparr>) = Next s'"
      and fo: "found s'"
      and re: "parse_loop strtod flags argv (s'\<lparr>idx := idx s' + 1\<rparr>) = (MICRO_FLAG_OK, m1, o1)"
      by (auto simp: parse_loop.simps [of strtod flags argv s] scan_flags_not_ok
            split: outcome.splits if_splits)
    from scan_flags_ext [OF sc, of ext] True
    have sc': "scan_flags strtod flags (argv @ ext) (s\<lparr>found := False\<rparr>) = Next s'"
      and b: "idx s' < length argv" by simp_all
    from b have "idx (s'\<lparr>idx := idx s' + 1\<rparr>) \<le> length argv" by simp
    from "1.IH" [OF True sc _ re this] fo
    have "parse_loop strtod flags (argv @ ext) (s'\<lparr>idx := idx s' + 1\<rparr>) =
            parse_loop strtod flags (argv @ ext)
              \<lparr>idx = length argv, found = b, mem = m1, out = o1\<rparr>"
      by simp
    with sc' fo True show ?thesis
      by (simp add: parse_loop.simps [of strtod flags "argv @ ext" s])
  qed
qed

lemma parse_prefix:
  assumes "micro_flag_parse strtod flags (prog # before) m0 = (MICRO_FLAG_OK, m1, o1)"
  shows "micro_flag_parse strtod flags (prog # before @ ext) m0 =
           parse_loop strtod flags (prog # before @ ext)
             \<lparr>idx = length before + 1, found = b, mem = m1, out = o1\<rparr>"
  using parse_loop_ext [of strtod flags "prog # before"
      "\<lparr>idx = 1, found = False, mem = m0, out = []\<rparr>" m1 o1 ext b] assms
  by (simp add: micro_flag_parse_def)

subsection \<open>Unknown flags\<close>



subsection \<open>Value tokens\<close>

text \<open>
  C1. The token a value kind consumes is to be skipped by the scan and never matched as
  a flag name. The code does not do so: with the table of example.c and the arguments
  \<^verbatim>\<open>-o -c x\<close>, the token \<^verbatim>\<open>-c\<close> is stored as the value of \<^verbatim>\<open>-o\<close> and then, in
  the same inner scan, matched as the name of the flag declared after it, which takes
  \<^verbatim>\<open>x\<close> as its value. The call returns \<open>MICRO_FLAG_OK\<close> and prints nothing.
\<close>

theorem value_token_matched_as_flag:
  "(case micro_flag_parse strtod_none example_flags [''example'', ''-o'', ''-c'', ''x'']
           (example_args ()) of
      (e, m, buf) \<Rightarrow>
        e = MICRO_FLAG_OK \<and> m 1 = CStr ''-c'' \<and> m 2 = CChar (CHR ''x'') \<and> buf = [])"
  by code_simp

subsection \<open>Diagnostics\<close>

text \<open>
  C4. Every error is to be preceded by a diagnostic line. For a flag whose type is none
  of the five kinds the code returns \<open>MICRO_FLAG_ERROR_UNKNOWN_TYPE\<close> and has printed
  nothing.
\<close>

theorem unknown_type_prints_nothing:
  "(case micro_flag_parse strtod_none [short_flag MICRO_FLAG_MAX 0 ''-x''] [''prog'', ''-x'']
           (\<lambda>a. CBool False) of
      (e, m, buf) \<Rightarrow> e = MICRO_FLAG_ERROR_UNKNOWN_TYPE \<and> buf = [] \<and> m 0 = CBool False)"
  by code_simp

subsection \<open>The first declaration that matches a token\<close>

lemma parse_loop_resume:
  assumes "idx s < length argv"
  shows "parse_loop strtod flags argv s = resume strtod flags flags argv (s\<lparr>found := False\<rparr>)"
  using assms by (subst parse_loop.simps) (simp add: resume_def)


lemma resume_match:
  assumes "matches f (argv ! idx s)"
  shows "resume strtod flags (f # fs) argv s =
           (case switch_type strtod f argv (s\<lparr>found := True\<rparr>) of
              Returned e s' \<Rightarrow> (e, mem s', out s')
            | Next s' \<Rightarrow> resume strtod flags fs argv s')"
  using assms by (simp add: resume_def split: outcome.splits)


lemma parse_no_tokens:
  "micro_flag_parse strtod flags [prog] m0 = (MICRO_FLAG_OK, m0, [])"
  by (simp add: micro_flag_parse_def) (subst parse_loop.simps, simp)

subsection \<open>Char flags\<close>



subsection \<open>Int flags\<close>




subsection \<open>Bool flags and declarations that share a name\<close>

lemma switch_type_bool:
  assumes "flag_type f = MICRO_FLAG_BOOL"
  shows "switch_type strtod f argv s = Next (store_at (flag_value f) (CBool True) s)"
  using assms by (simp add: switch_type_def)

lemma set_matching_Cons:
  "set_matching (f # fs) tok m =
     (if matches f tok then set_matching fs tok (m(flag_value f := CBool True))
      else set_matching fs tok m)"
  by (auto simp: set_matching_def fun_eq_iff)

lemma scan_flags_bool:
  assumes "\<forall>h \<in> set fs. matches h (argv ! idx s) \<longrightarrow> flag_type h = MICRO_FLAG_BOOL"
  shows "scan_flags strtod fs argv s =
           Next (s\<lparr>found := found s \<or> (\<exists>h \<in> set fs. matches h (argv ! idx s)),
                  mem := set_matching fs (argv ! idx s) (mem s)\<rparr>)"
  using assms
proof (induction fs arbitrary: s)
  case Nil
  show ?case by (simp add: set_matching_def)
next
  case (Cons f fs)
  show ?case
  proof (cases "matches f (argv ! idx s)")
    case False
    with Cons show ?thesis by (simp add: set_matching_Cons)
  next
    case True
    let ?s1 = "store_at (flag_value f) (CBool True) (s\<lparr>found := True\<rparr>)"
    from True Cons.prems have "flag_type f = MICRO_FLAG_BOOL" by simp
    then have sw: "switch_type strtod f argv (s\<lparr>found := True\<rparr>) = Next ?s1"
      by (rule switch_type_bool)
    have i: "idx ?s1 = idx s" by (simp add: store_at_def)
    from Cons.prems i
    have "\<forall>h \<in> set fs. matches h (argv ! idx ?s1) \<longrightarrow> flag_type h = MICRO_FLAG_BOOL"
      by simp
    from Cons.IH [OF this] sw True show ?thesis
      by (simp add: set_matching_Cons store_at_def fun_upd_def)
  qed
qed

lemma set_matching_hit:
  assumes "h \<in> set flags" "matches h tok"
  shows "set_matching flags tok m (flag_value h) = CBool True"
  using assms by (auto simp: set_matching_def list_ex_iff)

text \<open>
  C3, as the claim states it, fails: of two flags of a value kind declared with the same
  short name, one occurrence of the name with a value triggers the first only. The
  second is compared with the value token, and its destination is not written.
\<close>

theorem duplicate_value_flag_once:
  "(case micro_flag_parse strtod_none
           [short_flag MICRO_FLAG_INT 0 ''-n'', short_flag MICRO_FLAG_INT 1 ''-n'']
           [''prog'', ''-n'', ''5''] (\<lambda>a. CInt 0) of
      (e, m, buf) \<Rightarrow> e = MICRO_FLAG_OK \<and> m 0 = CInt 5 \<and> m 1 = CInt 0 \<and> buf = [])"
  by code_simp

text \<open>
  C3, amended. The inner scan does not stop at the first declaration that matches a
  token. When every declaration that matches a token in flag position is of kind Bool, the
  scan of that token writes \<open>true\<close> to the destination of each of them and the run goes on
  with the next token; so two flags declared with the same short name, at different
  places of the table, both have their destinations set by one occurrence of the name.
\<close>

theorem duplicate_bool_flags_both_set:
  assumes "micro_flag_parse strtod flags (prog # before) m0 = (MICRO_FLAG_OK, m1, o1)"
    and "flags = xs @ f # ys @ g # zs"
    and "short_name f = Some tok" "short_name g = Some tok"
    and "\<forall>h \<in> set flags. matches h tok \<longrightarrow> flag_type h = MICRO_FLAG_BOOL"
  shows "micro_flag_parse strtod flags (prog # before @ tok # rest) m0 =
           parse_loop strtod flags (prog # before @ tok # rest)
             \<lparr>idx = length before + 2, found = True, mem = set_matching flags tok m1,
              out = o1\<rparr>
         \<and> set_matching flags tok m1 (flag_value f) = CBool True
         \<and> set_matching flags tok m1 (flag_value g) = CBool True"
proof (intro conjI)
  let ?argv = "prog # before @ tok # rest"
  let ?s = "\<lparr>idx = length before + 1, found = False, mem = m1, out = o1\<rparr>"
  have tok: "?argv ! idx ?s = tok" by (simp add: nth_append)
  from assms(2,3,4) have fg: "f \<in> set flags" "g \<in> set flags" "matches f tok" "matches g tok"
    by (simp_all add: matches_def)
  from assms(5) tok
  have "\<forall>h \<in> set flags. matches h (?argv ! idx (?s\<lparr>found := False\<rparr>))
          \<longrightarrow> flag_type h = MICRO_FLAG_BOOL"
    by simp
  from scan_flags_bool [OF this, of strtod] tok fg(1,3)
  have "scan_flags strtod flags ?argv (?s\<lparr>found := False\<rparr>) =
          Next \<lparr>idx = length before + 1, found = True, mem = set_matching flags tok m1,
                out = o1\<rparr>"
    by auto
  then have "parse_loop strtod flags ?argv ?s =
          parse_loop strtod flags ?argv
             \<lparr>idx = length before + 2, found = True, mem = set_matching flags tok m1,
              out = o1\<rparr>"
    by (subst parse_loop.simps) simp
  with parse_prefix [OF assms(1), of "tok # rest" False]
  show "micro_flag_parse strtod flags ?argv m0 =
           parse_loop strtod flags ?argv
             \<lparr>idx = length before + 2, found = True, mem = set_matching flags tok m1,
              out = o1\<rparr>"
    by simp
  from fg show "set_matching flags tok m1 (flag_value f) = CBool True"
    by (simp add: set_matching_hit)
  from fg show "set_matching flags tok m1 (flag_value g) = CBool True"
    by (simp add: set_matching_hit)
qed

theorem duplicate_bool_flags_both_set_witness:
  "(case micro_flag_parse strtod_none
           [short_flag MICRO_FLAG_BOOL 0 ''-v'', short_flag MICRO_FLAG_INT 2 ''-n'',
            short_flag MICRO_FLAG_BOOL 1 ''-v'']
           [''prog'', ''-v''] (\<lambda>a. CBool False) of
      (e, m, buf) \<Rightarrow>
        e = MICRO_FLAG_OK \<and> m 0 = CBool True \<and> m 1 = CBool True \<and> m 2 = CBool False
        \<and> buf = [])"
proof -
  let ?f = "short_flag MICRO_FLAG_BOOL 0 ''-v''"
  let ?n = "short_flag MICRO_FLAG_INT 2 ''-n''"
  let ?g = "short_flag MICRO_FLAG_BOOL 1 ''-v''"
  let ?init = "(\<lambda>a. CBool False) :: unit store"
  have table: "[?f, ?n, ?g] = [] @ ?f # [?n] @ ?g # []" by simp
  have names: "short_name ?f = Some ''-v''" "short_name ?g = Some ''-v''"
    by (simp_all add: short_flag_def)
  have bool: "\<forall>h \<in> set [?f, ?n, ?g]. matches h ''-v'' \<longrightarrow> flag_type h = MICRO_FLAG_BOOL"
    by (simp add: short_flag_def matches_def)
  note both = duplicate_bool_flags_both_set [where strtod = strtod_none
      and prog = "''prog''" and ?m0.0 = ?init and rest = "[]",
      OF parse_no_tokens table names bool]
  have fv: "flag_value ?f = 0" "flag_value ?g = 1" by (simp_all add: short_flag_def)
  let ?fin = "set_matching [?f, ?n, ?g] ''-v'' ?init"
  have "parse_loop strtod_none [?f, ?n, ?g] [''prog'', ''-v'']
          \<lparr>idx = length ([] :: string list) + 2, found = True, mem = ?fin, out = []\<rparr> =
        (MICRO_FLAG_OK, ?fin, [])"
    by (subst parse_loop.simps) simp
  with both have run: "micro_flag_parse strtod_none [?f, ?n, ?g] [''prog'', ''-v''] ?init =
      (MICRO_FLAG_OK, ?fin, [])"
    by simp
  have "?fin 2 = CBool False"
    by (simp add: set_matching_def short_flag_def matches_def)
  moreover from both fv have "?fin 0 = CBool True" "?fin 1 = CBool True"
    by simp_all
  ultimately show ?thesis unfolding run by simp
qed

subsection \<open>What a run leaves unchanged\<close>

lemma switch_type_idx:
  assumes "switch_type strtod f argv s = Next s'"
  shows "idx s \<le> idx s'"
  using assms
  by (auto simp: switch_type_def store_at_def split: MicroFlagType.splits if_splits prod.splits)

lemma switch_type_frame:
  assumes "flag_value f \<noteq> a"
  shows "mem (outcome_state (switch_type strtod f argv s)) a = mem s a"
  using assms
  by (auto simp: switch_type_def store_at_def printf_def split: MicroFlagType.splits prod.splits)

lemma switch_type_keeps_true:
  assumes "mem s a = CBool True" "flag_value f = a \<longrightarrow> flag_type f = MICRO_FLAG_BOOL"
  shows "mem (outcome_state (switch_type strtod f argv s)) a = CBool True"
  using assms
  by (auto simp: switch_type_def store_at_def printf_def split: MicroFlagType.splits prod.splits)

lemma scan_flags_keeps_true:
  assumes "mem s a = CBool True"
    and "\<forall>h \<in> set fs. flag_value h = a \<longrightarrow> flag_type h = MICRO_FLAG_BOOL"
  shows "mem (outcome_state (scan_flags strtod fs argv s)) a = CBool True"
  using assms
proof (induction fs arbitrary: s)
  case Nil
  then show ?case by simp
next
  case (Cons f fs)
  show ?case
  proof (cases "matches f (argv ! idx s)")
    case False
    with Cons show ?thesis by simp
  next
    case True
    from Cons.prems
    have t: "mem (outcome_state (switch_type strtod f argv (s\<lparr>found := True\<rparr>))) a = CBool True"
      by (intro switch_type_keeps_true) simp_all
    show ?thesis
    proof (cases "switch_type strtod f argv (s\<lparr>found := True\<rparr>)")
      case (Returned e s1)
      with t True show ?thesis by simp
    next
      case (Next s1)
      with t have "mem s1 a = CBool True" by simp
      from Cons.IH [OF this] Cons.prems(2) Next True show ?thesis by simp
    qed
  qed
qed

lemma parse_loop_keeps_true:
  assumes "mem s a = CBool True"
    and "\<forall>h \<in> set flags. flag_value h = a \<longrightarrow> flag_type h = MICRO_FLAG_BOOL"
  shows "fst (snd (parse_loop strtod flags argv s)) a = CBool True"
  using assms
proof (induction strtod flags argv s rule: parse_loop.induct)
  case (1 strtod flags argv s)
  show ?case
  proof (cases "idx s < length argv")
    case False
    with "1.prems" show ?thesis by (subst parse_loop.simps) simp
  next
    case True
    from "1.prems"
    have t: "mem (outcome_state (scan_flags strtod flags argv (s\<lparr>found := False\<rparr>))) a
               = CBool True"
      by (intro scan_flags_keeps_true) simp_all
    show ?thesis
    proof (cases "scan_flags strtod flags argv (s\<lparr>found := False\<rparr>)")
      case (Returned e s1)
      with t True show ?thesis by (subst parse_loop.simps) simp
    next
      case (Next s1)
      with t have m: "mem s1 a = CBool True" by simp
      show ?thesis
      proof (cases "found s1")
        case False
        with Next m True show ?thesis by (subst parse_loop.simps) simp
      next
        case f: True
        from m have "mem (s1\<lparr>idx := idx s1 + 1\<rparr>) a = CBool True" by simp
        from "1.IH" [OF True Next _ this "1.prems"(2)] f
        have "fst (snd (parse_loop strtod flags argv (s1\<lparr>idx := idx s1 + 1\<rparr>))) a
                = CBool True"
          by simp
        with Next f True show ?thesis by (subst parse_loop.simps) simp
      qed
    qed
  qed
qed

lemma resume_keeps_true:
  assumes "mem s a = CBool True"
    and "\<forall>h \<in> set flags. flag_value h = a \<longrightarrow> flag_type h = MICRO_FLAG_BOOL"
    and "set fs \<subseteq> set flags"
  shows "fst (snd (resume strtod flags fs argv s)) a = CBool True"
proof -
  from assms(2,3)
  have "\<forall>h \<in> set fs. flag_value h = a \<longrightarrow> flag_type h = MICRO_FLAG_BOOL" by auto
  from scan_flags_keeps_true [OF assms(1) this, of strtod argv]
  show ?thesis
    by (cases "scan_flags strtod fs argv s")
       (simp_all add: resume_def parse_loop_keeps_true assms(2))
qed

lemma scan_flags_frame:
  assumes "\<forall>h \<in> set fs. flag_value h = a \<longrightarrow> (\<forall>t \<in> set (tl argv). \<not> matches h t)"
    and "1 \<le> idx s" "idx s < length argv"
  shows "mem (outcome_state (scan_flags strtod fs argv s)) a = mem s a"
  using assms
proof (induction fs arbitrary: s)
  case Nil
  then show ?case by simp
next
  case (Cons f fs)
  show ?case
  proof (cases "matches f (argv ! idx s)")
    case False
    with Cons show ?thesis by simp
  next
    case True
    from Cons.prems(2,3) have "argv ! idx s \<in> set (tl argv)"
      by (cases argv) (auto simp: nth_Cons split: nat.splits)
    with True Cons.prems(1) have ne: "flag_value f \<noteq> a" by auto
    then have fr: "mem (outcome_state (switch_type strtod f argv (s\<lparr>found := True\<rparr>))) a
                     = mem s a"
      by (simp add: switch_type_frame)
    show ?thesis
    proof (cases "switch_type strtod f argv (s\<lparr>found := True\<rparr>)")
      case (Returned e s1)
      with fr True show ?thesis by simp
    next
      case (Next s1)
      from switch_type_idx [OF Next] switch_type_bound [OF Next] Cons.prems(2,3)
      have b: "1 \<le> idx s1" "idx s1 < length argv" by simp_all
      from Cons.prems(1) have "\<forall>h \<in> set fs. flag_value h = a \<longrightarrow>
          (\<forall>t \<in> set (tl argv). \<not> matches h t)" by simp
      from Cons.IH [OF this b] fr Next True show ?thesis by simp
    qed
  qed
qed

lemma scan_flags_lower:
  assumes "scan_flags strtod fs argv s = Next s'"
  shows "idx s \<le> idx s'"
  using assms
proof (induction fs arbitrary: s)
  case Nil
  then show ?case by simp
next
  case (Cons f fs)
  show ?case
  proof (cases "matches f (argv ! idx s)")
    case False
    with Cons show ?thesis by simp
  next
    case True
    with Cons.prems obtain s1 where
      s1: "switch_type strtod f argv (s\<lparr>found := True\<rparr>) = Next s1"
      and rest: "scan_flags strtod fs argv s1 = Next s'"
      by (auto split: outcome.splits)
    from switch_type_idx [OF s1] Cons.IH [OF rest] show ?thesis by simp
  qed
qed

lemma parse_loop_frame:
  assumes "\<forall>h \<in> set flags. flag_value h = a \<longrightarrow> (\<forall>t \<in> set (tl argv). \<not> matches h t)"
    and "1 \<le> idx s"
  shows "fst (snd (parse_loop strtod flags argv s)) a = mem s a"
  using assms
proof (induction strtod flags argv s rule: parse_loop.induct)
  case (1 strtod flags argv s)
  show ?case
  proof (cases "idx s < length argv")
    case False
    then show ?thesis by (subst parse_loop.simps) simp
  next
    case True
    from "1.prems" True
    have fr: "mem (outcome_state (scan_flags strtod flags argv (s\<lparr>found := False\<rparr>))) a
               = mem s a"
      using scan_flags_frame [of flags a argv "s\<lparr>found := False\<rparr>" strtod] by simp
    show ?thesis
    proof (cases "scan_flags strtod flags argv (s\<lparr>found := False\<rparr>)")
      case (Returned e s1)
      with fr True show ?thesis by (subst parse_loop.simps) simp
    next
      case (Next s1)
      with fr have m: "mem s1 a = mem s a" by simp
      show ?thesis
      proof (cases "found s1")
        case False
        with Next m True show ?thesis by (subst parse_loop.simps) simp
      next
        case f: True
        from scan_flags_lower [OF Next] "1.prems"(2)
        have "1 \<le> idx (s1\<lparr>idx := idx s1 + 1\<rparr>)" by simp
        from "1.IH" [OF True Next _ "1.prems"(1) this] f m
        have "fst (snd (parse_loop strtod flags argv (s1\<lparr>idx := idx s1 + 1\<rparr>))) a = mem s a"
          by simp
        with Next f True show ?thesis by (subst parse_loop.simps) simp
      qed
    qed
  qed
qed

lemma resume_append:
  "resume strtod flags (pre @ fs) argv s =
     (case scan_flags strtod pre argv s of
        Returned e s' \<Rightarrow> (e, mem s', out s')
      | Next s' \<Rightarrow> resume strtod flags fs argv s')"
  by (simp add: resume_def scan_flags_append split: outcome.splits)

text \<open>
  C8, as the claim states it, fails: a flag that no token matches does not keep its
  destination when another flag, which a token matches, has the same destination.
\<close>

theorem unmatched_flag_shared_destination:
  "\<not> matches (short_flag MICRO_FLAG_BOOL 0 ''-b'') ''-a''
   \<and> (case micro_flag_parse strtod_none
             [short_flag MICRO_FLAG_BOOL 0 ''-a'', short_flag MICRO_FLAG_BOOL 0 ''-b'']
             [''prog'', ''-a''] (\<lambda>a. CBool False) of
        (e, m, buf) \<Rightarrow>
          e = MICRO_FLAG_OK \<and> m (flag_value (short_flag MICRO_FLAG_BOOL 0 ''-b'')) = CBool True)"
  by code_simp

text \<open>
  C8, amended. Let \<open>tok\<close> be a token in flag position, wherever it is among the
  arguments, and \<open>f\<close> a Bool flag that matches it, every declaration before \<open>f\<close> that
  matches \<open>tok\<close> being of kind Bool too. Then \<open>true\<close> is written to the destination of
  \<open>f\<close>, and it is there when the call returns, with or without an error, if only Bool
  flags have this destination. And an address \<open>a\<close> that is the destination only of
  flags that match none of the tokens after the program name holds at the end what it
  held at the start.
\<close>

theorem bool_flag_written_and_frame:
  "(micro_flag_parse strtod flags (prog # before) m0 = (MICRO_FLAG_OK, m1, o1)
      \<and> flags = pre @ f # post
      \<and> (\<forall>h \<in> set pre. matches h tok \<longrightarrow> flag_type h = MICRO_FLAG_BOOL)
      \<and> matches f tok \<and> flag_type f = MICRO_FLAG_BOOL
      \<and> (\<forall>h \<in> set flags. flag_value h = flag_value f \<longrightarrow> flag_type h = MICRO_FLAG_BOOL)
     \<longrightarrow> fst (snd (micro_flag_parse strtod flags (prog # before @ tok # rest) m0))
           (flag_value f) = CBool True)
   \<and> ((\<forall>h \<in> set flags. flag_value h = a \<longrightarrow> (\<forall>t \<in> set (tl argv). \<not> matches h t))
     \<longrightarrow> fst (snd (micro_flag_parse strtod flags argv m0)) a = m0 a)"
proof (intro conjI impI; (elim conjE)?)
  assume ok: "micro_flag_parse strtod flags (prog # before) m0 = (MICRO_FLAG_OK, m1, o1)"
    and table: "flags = pre @ f # post"
    and pre: "\<forall>h \<in> set pre. matches h tok \<longrightarrow> flag_type h = MICRO_FLAG_BOOL"
    and f: "matches f tok" "flag_type f = MICRO_FLAG_BOOL"
    and dest: "\<forall>h \<in> set flags. flag_value h = flag_value f \<longrightarrow> flag_type h = MICRO_FLAG_BOOL"
  let ?argv = "prog # before @ tok # rest"
  let ?s = "\<lparr>idx = length before + 1, found = False, mem = m1, out = o1\<rparr>"
  let ?s1 = "?s\<lparr>found := found ?s \<or> (\<exists>h \<in> set pre. matches h (?argv ! idx ?s)),
                 mem := set_matching pre (?argv ! idx ?s) (mem ?s)\<rparr>"
  let ?s2 = "store_at (flag_value f) (CBool True) (?s1\<lparr>found := True\<rparr>)"
  have tok: "?argv ! idx ?s = tok" by (simp add: nth_append)
  from pre tok
  have "\<forall>h \<in> set pre. matches h (?argv ! idx ?s) \<longrightarrow> flag_type h = MICRO_FLAG_BOOL"
    by simp
  from scan_flags_bool [OF this, of strtod]
  have "resume strtod flags (pre @ f # post) ?argv ?s = resume strtod flags (f # post) ?argv ?s1"
    by (simp add: resume_append)
  also have "\<dots> = resume strtod flags post ?argv ?s2"
    using f tok by (subst resume_match) (simp_all add: switch_type_bool nth_append)
  finally have "parse_loop strtod flags ?argv ?s = resume strtod flags post ?argv ?s2"
    using parse_loop_resume [of ?s ?argv strtod flags] table by simp
  with parse_prefix [OF ok, of "tok # rest" False]
  have "micro_flag_parse strtod flags ?argv m0 = resume strtod flags post ?argv ?s2"
    by simp
  moreover have "fst (snd (resume strtod flags post ?argv ?s2)) (flag_value f) = CBool True"
    using dest table by (intro resume_keeps_true) (auto simp: store_at_def)
  ultimately
  show "fst (snd (micro_flag_parse strtod flags ?argv m0)) (flag_value f) = CBool True"
    by simp
next
  assume "\<forall>h \<in> set flags. flag_value h = a \<longrightarrow> (\<forall>t \<in> set (tl argv). \<not> matches h t)"
  then show "fst (snd (micro_flag_parse strtod flags argv m0)) a = m0 a"
    by (simp add: micro_flag_parse_def parse_loop_frame)
qed

theorem bool_flag_written_and_frame_witness:
  "fst (snd (micro_flag_parse strtod_none example_flags
        [''example'', ''-n'', ''5'', ''-h'', ''-c'', ''x''] (example_args ()))) 0 = CBool True
   \<and> fst (snd (micro_flag_parse strtod_none example_flags
        [''example'', ''-n'', ''5'', ''-c'', ''x''] (example_args ()))) 0 = CBool False"
proof -
  let ?r = "micro_flag_parse strtod_none example_flags [''example'', ''-n'', ''5'']
              (example_args ())"
  have "fst ?r = MICRO_FLAG_OK" and "snd (snd ?r) = []"
    by code_simp+
  then have ok: "?r = (MICRO_FLAG_OK, fst (snd ?r), [])"
    by (metis prod.collapse)
  have table: "example_flags = [] @ hd example_flags # tl example_flags"
    by (simp add: example_flags_def)
  have f: "matches (hd example_flags) ''-h''" "flag_type (hd example_flags) = MICRO_FLAG_BOOL"
    "flag_value (hd example_flags) = 0"
    by (simp_all add: example_flags_def matches_def)
  have dest: "\<forall>h \<in> set example_flags.
      flag_value h = flag_value (hd example_flags) \<longrightarrow> flag_type h = MICRO_FLAG_BOOL"
    by (simp add: example_flags_def)
  have unnamed: "\<forall>h \<in> set example_flags. flag_value h = 0 \<longrightarrow>
      (\<forall>t \<in> set (tl [''example'', ''-n'', ''5'', ''-c'', ''x'']). \<not> matches h t)"
    by (simp add: example_flags_def matches_def)
  note both = bool_flag_written_and_frame [where strtod = strtod_none and flags = example_flags
      and prog = "''example''" and before = "[''-n'', ''5'']" and ?m0.0 = "example_args ()"
      and ?m1.0 = "fst (snd ?r)" and ?o1.0 = "[]" and pre = "[]" and f = "hd example_flags"
      and post = "tl example_flags" and tok = "''-h''" and rest = "[''-c'', ''x'']"
      and a = 0 and argv = "[''example'', ''-n'', ''5'', ''-c'', ''x'']"]
  from both ok table f dest
  have "fst (snd (micro_flag_parse strtod_none example_flags
        [''example'', ''-n'', ''5'', ''-h'', ''-c'', ''x''] (example_args ()))) 0 = CBool True"
    by simp
  moreover from both unnamed
  have "fst (snd (micro_flag_parse strtod_none example_flags
        [''example'', ''-n'', ''5'', ''-c'', ''x''] (example_args ()))) 0 = CBool False"
    by (simp add: example_args_def)
  ultimately show ?thesis by simp
qed

subsection \<open>Arguments that parse\<close>









end
